theory Spec2Isabelle
  imports Complex_Main "HOL-Library.DAList"
begin

section \<open>Strings, bytes and time\<close>

text \<open>
  A Python \<^verbatim>\<open>str\<close> is a sequence of Unicode code points, so the caption text is a list
  of code points. Byte strings (\<^verbatim>\<open>bytes\<close>), identifiers, URLs and messages are lists of
  \<^typ>\<open>char\<close>. A clock reading is the real number that the double returned by
  \<^verbatim>\<open>time.time()\<close> denotes.
\<close>

type_synonym ustr = "nat list"
type_synonym bytes = "char list"
type_synonym time = real
type_synonym image_id = string

definition ustr :: "string \<Rightarrow> ustr" where
  "ustr s = map of_char s"

text \<open>
  The characters \<^verbatim>\<open>str.split()\<close> treats as separators: U+0009..U+000D, U+001C..U+0020,
  U+0085, U+00A0, U+1680, U+2000..U+200A, U+2028, U+2029, U+202F, U+205F, U+3000.
\<close>

definition isspace :: "nat \<Rightarrow> bool" where
  "isspace c \<longleftrightarrow>
     (9 \<le> c \<and> c \<le> 13) \<or> (28 \<le> c \<and> c \<le> 32) \<or> c = 133 \<or> c = 160 \<or> c = 5760 \<or>
     (8192 \<le> c \<and> c \<le> 8202) \<or> c = 8232 \<or> c = 8233 \<or> c = 8239 \<or> c = 8287 \<or> c = 12288"

text \<open>
  \<^verbatim>\<open>text.split()\<close> with no argument: runs of whitespace separate the words, leading and
  trailing whitespace is skipped, and no word is empty.
\<close>

function split_ws :: "ustr \<Rightarrow> ustr list" where
  "split_ws [] = []"
| "split_ws (c # cs) =
     (if isspace c then split_ws cs
      else takeWhile (\<lambda>x. \<not> isspace x) (c # cs) #
           split_ws (dropWhile (\<lambda>x. \<not> isspace x) cs))"
  by pat_completeness auto
termination
  by (relation "measure length") (auto simp: less_Suc_eq_le length_dropWhile_le)

text \<open>\<^verbatim>\<open>" ".join(lines)\<close>.\<close>

fun join_sp :: "ustr list \<Rightarrow> ustr" where
  "join_sp [] = []"
| "join_sp [l] = l"
| "join_sp (l # ls) = l @ ustr '' '' @ join_sp ls"

section \<open>The text wrapper\<close>

text \<open>
  \<^verbatim>\<open>
  def wrap_text(draw, text, font, max_width):
      words = text.split()
      if not words:
          return [""]
      lines = []
      current_line = words[0]
      for word in words[1:]:
          test_line = current_line + " " + word
          w, _ = draw.textbbox((0, 0), test_line, font=font)[2:]
          if w <= max_width:
              current_line = test_line
          else:
              lines.append(current_line)
              current_line = word
      lines.append(current_line)
      return lines
  \<close>
  The parameter \<open>draw\<close> stands for \<^verbatim>\<open>lambda s, font: draw.textbbox((0, 0), s, font=font)[2]\<close>,
  the right edge of the bounding box of \<open>s\<close> drawn at the origin. Widths are compared with
  \<open>\<le>\<close> only, so any linearly ordered type serves.
  \<open>wrap_loop\<close> is the \<^verbatim>\<open>for\<close> loop with the final \<^verbatim>\<open>lines.append(current_line)\<close>; its state
  is \<open>lines\<close> and \<open>current_line\<close>.
\<close>

fun wrap_loop ::
  "(ustr \<Rightarrow> 'f \<Rightarrow> 'w::linorder) \<Rightarrow> 'f \<Rightarrow> 'w \<Rightarrow> ustr list \<Rightarrow> ustr \<Rightarrow> ustr list \<Rightarrow> ustr list"
where
  "wrap_loop draw font max_width lines current_line [] = lines @ [current_line]"
| "wrap_loop draw font max_width lines current_line (word # rest) =
     (let test_line = current_line @ ustr '' '' @ word;
          w = draw test_line font
      in if w \<le> max_width
         then wrap_loop draw font max_width lines test_line rest
         else wrap_loop draw font max_width (lines @ [current_line]) word rest)"

definition wrap_text ::
  "(ustr \<Rightarrow> 'f \<Rightarrow> 'w::linorder) \<Rightarrow> ustr \<Rightarrow> 'f \<Rightarrow> 'w \<Rightarrow> ustr list"
where
  "wrap_text draw text font max_width =
     (case split_ws text of
        [] \<Rightarrow> [[]]
      | word0 # rest \<Rightarrow> wrap_loop draw font max_width [] word0 rest)"

section \<open>Double precision\<close>

text \<open>
  \<^verbatim>\<open>time.time()\<close> returns a double and \<^verbatim>\<open>time.time() + IMAGE_LIFETIME\<close> is the
  addition of doubles: the exact sum rounded to the nearest double, ties to the even
  significand. A double is read as the real number it denotes. \<open>rne\<close> rounds a real to
  the nearest integer, ties to even; \<open>round_double\<close> rounds to 53 significant bits
  (the exponent range plays no part at the size of clock readings); \<open>fadd\<close> is the
  addition of two doubles, and \<open>is_double\<close> holds of the reals that rounding leaves as
  they are.
\<close>

definition rne :: "real \<Rightarrow> int" where
  "rne r =
     (let f = \<lfloor>r\<rfloor>; d = r - of_int f
      in if d < 1 / 2 then f else if 1 / 2 < d then f + 1 else if even f then f else f + 1)"

definition round_double :: "real \<Rightarrow> real" where
  "round_double x =
     (if x = 0 then 0
      else let e = \<lfloor>log 2 \<bar>x\<bar>\<rfloor>; u = 2 powr of_int (e - 52)
           in sgn x * of_int (rne (\<bar>x\<bar> / u)) * u)"

definition fadd :: "real \<Rightarrow> real \<Rightarrow> real" where
  "fadd x y = round_double (x + y)"

definition is_double :: "real \<Rightarrow> bool" where
  "is_double x \<longleftrightarrow> round_double x = x"

text \<open>The doubles written \<^verbatim>\<open>0.1\<close> and \<^verbatim>\<open>60.1\<close> in Python.\<close>

definition double_0_1 :: real where
  "double_0_1 = 3602879701896397 / 2 ^ 55"

definition double_60_1 :: real where
  "double_60_1 = 8458323050155213 / 2 ^ 47"

text \<open>
  A clock reading of January 2038, 30 seconds before \<open>2 ^ 31\<close>, and the double nearest
  to the instant 60 seconds later.
\<close>

definition clock_2038 :: real where
  "clock_2038 = 2 ^ 31 - 30 + 3 / 2 ^ 22"

definition expiry_2038 :: real where
  "expiry_2038 = 2 ^ 31 + 30 + 1 / 2 ^ 20"

section \<open>The ephemeral store\<close>

text \<open>
  \<^verbatim>\<open>EPHEMERAL_STORE = {}\<close> maps an image id to \<^verbatim>\<open>{"data": bytes, "expires_at": float}\<close>.
  A Python dict keeps its keys distinct and in insertion order: an association list with
  distinct keys. Assigning to a key that is present replaces the value in place, assigning
  to a new key appends, \<^verbatim>\<open>pop(key, None)\<close> deletes the key when present.
\<close>

record entry =
  data :: bytes
  expires_at :: time

type_synonym store = "(image_id, entry) alist"

definition IMAGE_LIFETIME :: time where
  "IMAGE_LIFETIME = 60"

text \<open>
  Lines 117 to 120 of \<^verbatim>\<open>edit_image\<close>:
  \<^verbatim>\<open>EPHEMERAL_STORE[image_id] = {"data": ..., "expires_at": time.time() + IMAGE_LIFETIME}\<close>.
  The sum is the sum of the doubles \<open>now\<close> and \<open>60.0\<close>.
\<close>

definition store_image :: "image_id \<Rightarrow> bytes \<Rightarrow> time \<Rightarrow> store \<Rightarrow> store" where
  "store_image image_id payload now s =
     DAList.update image_id \<lparr>data = payload, expires_at = fadd now IMAGE_LIFETIME\<rparr> s"

text \<open>
  \<^verbatim>\<open>
  def cleanup_ephemeral_store():
      now = time.time()
      expired_keys = [key for key, val in EPHEMERAL_STORE.items() if now > val["expires_at"]]
      for key in expired_keys:
          EPHEMERAL_STORE.pop(key, None)
  \<close>
\<close>

definition expired_keys :: "time \<Rightarrow> store \<Rightarrow> image_id list" where
  "expired_keys now s = [key. (key, val) \<leftarrow> DAList.impl_of s, now > expires_at val]"

definition cleanup_ephemeral_store :: "time \<Rightarrow> store \<Rightarrow> store" where
  "cleanup_ephemeral_store now s = fold DAList.delete (expired_keys now s) s"

text \<open>
  \<^verbatim>\<open>temp_image\<close> reads the clock twice: once inside the sweep (\<open>now_sweep\<close>) and once in
  the second check (\<open>now_check\<close>). \<^verbatim>\<open>abort(404, description=...)\<close> raises; the store
  keeps what was done before.
\<close>

datatype http_error = Abort nat string

definition temp_image ::
  "image_id \<Rightarrow> time \<Rightarrow> time \<Rightarrow> store \<Rightarrow> (http_error + bytes) \<times> store"
where
  "temp_image image_id now_sweep now_check s =
     (let s1 = cleanup_ephemeral_store now_sweep s in
      case DAList.lookup s1 image_id of
        None \<Rightarrow> (Inl (Abort 404 ''Image not found or expired''), s1)
      | Some image_entry \<Rightarrow>
          if now_check > expires_at image_entry
          then (Inl (Abort 404 ''Image has expired''), DAList.delete image_id s1)
          else (Inr (data image_entry), s1))"

section \<open>The generate handler\<close>

text \<open>
  The value of \<^verbatim>\<open>request.get_json()\<close> is any JSON value, as Python reads it: \<^verbatim>\<open>None\<close>,
  a bool, an int, a float, a str, a list or a dict with string keys.
\<close>

datatype json =
  JNull
| JBool bool
| JInt int
| JFloat real
| JString ustr
| JList "json list"
| JDict "(string \<times> json) list"

text \<open>The name Python prints for the type of a value.\<close>

fun type_name :: "json \<Rightarrow> string" where
  "type_name JNull = ''NoneType''"
| "type_name (JBool b) = ''bool''"
| "type_name (JInt i) = ''int''"
| "type_name (JFloat x) = ''float''"
| "type_name (JString s) = ''str''"
| "type_name (JList xs) = ''list''"
| "type_name (JDict items) = ''dict''"

text \<open>
  \<^verbatim>\<open>str(e)\<close> for the \<^verbatim>\<open>AttributeError\<close> of \<^verbatim>\<open>v.name\<close>:
  \<^verbatim>\<open>'NoneType' object has no attribute 'upper'\<close>.
\<close>

definition py_quote :: "string \<Rightarrow> string" where
  "py_quote s = CHR 0x27 # s @ [CHR 0x27]"

definition attribute_error :: "json \<Rightarrow> string \<Rightarrow> string" where
  "attribute_error v name =
     py_quote (type_name v) @ '' object has no attribute '' @ py_quote name"

text \<open>
  \<^verbatim>\<open>data.get(key, default)\<close>: only a dict has \<^verbatim>\<open>get\<close>; a key that is absent gives the
  default, a key that is present gives its value, whatever it is.
\<close>

definition dict_get :: "json \<Rightarrow> string \<Rightarrow> json \<Rightarrow> string + json" where
  "dict_get d key dflt =
     (case d of
        JDict items \<Rightarrow> Inr (case map_of items key of None \<Rightarrow> dflt | Some v \<Rightarrow> v)
      | _ \<Rightarrow> Inl (attribute_error d ''get''))"

text \<open>\<^verbatim>\<open>text.upper()\<close>: only a str has \<^verbatim>\<open>upper\<close>; \<open>up\<close> is \<^verbatim>\<open>str.upper\<close>.\<close>

definition call_upper :: "(ustr \<Rightarrow> ustr) \<Rightarrow> json \<Rightarrow> string + ustr" where
  "call_upper up v =
     (case v of
        JString s \<Rightarrow> Inr (up s)
      | _ \<Rightarrow> Inl (attribute_error v ''upper''))"

text \<open>
  \<^verbatim>\<open>edit_image\<close> works through an HTTP client and an imaging library. They are taken as a
  record of functions; a call that raises returns \<open>Inl\<close> of \<^verbatim>\<open>str(e)\<close>.
  \<^item> \<open>requests_get url\<close> is \<^verbatim>\<open>requests.get(url).content\<close>; the argument is the JSON value
    found in the request, \<^verbatim>\<open>None\<close> when the request has no \<^verbatim>\<open>image_url\<close>;
  \<^item> \<open>open_base\<close> is \<^verbatim>\<open>Image.open(BytesIO(content)).convert("RGB").resize((1080, 1350), LANCZOS)\<close>;
  \<^item> \<open>open_logo\<close> is \<^verbatim>\<open>Image.open(BytesIO(content)).convert("RGBA").resize((185, 58), LANCZOS)\<close>;
  \<^item> \<open>compose img logo\<close> is lines 67 to 85: the gradient overlay and the pasted logo;
  \<^item> \<open>truetype\<close> is \<^verbatim>\<open>ImageFont.truetype\<close>;
  \<^item> \<open>textbbox s font\<close> is \<^verbatim>\<open>draw.textbbox((0, 0), s, font=font)[2:]\<close>, the right and bottom
    edges of the box;
  \<^item> \<open>draw_text img xy line font\<close> is \<^verbatim>\<open>draw.text(xy, line, font=font, fill=(255, 255, 255, 255))\<close>;
  \<^item> \<open>save_jpeg\<close> is \<^verbatim>\<open>img.convert("RGB").save(output, format="JPEG", quality=90)\<close>;
  \<^item> \<open>upper\<close> is \<^verbatim>\<open>str.upper\<close>.
  The request gives the result of \<^verbatim>\<open>request.get_json()\<close>, which may raise, and
  \<^verbatim>\<open>request.host_url\<close>.
\<close>

record ('img, 'font) pil =
  requests_get :: "json \<Rightarrow> string + bytes"
  open_base :: "bytes \<Rightarrow> string + 'img"
  open_logo :: "bytes \<Rightarrow> string + 'img"
  compose :: "'img \<Rightarrow> 'img \<Rightarrow> string + 'img"
  truetype :: "string \<Rightarrow> nat \<Rightarrow> string + 'font"
  textbbox :: "ustr \<Rightarrow> 'font \<Rightarrow> int \<times> int"
  draw_text :: "'img \<Rightarrow> int \<times> int \<Rightarrow> ustr \<Rightarrow> 'font \<Rightarrow> 'img"
  save_jpeg :: "'img \<Rightarrow> string + bytes"
  upper :: "ustr \<Rightarrow> ustr"

record request =
  get_json :: "string + json"
  host_url :: string

datatype reply = Generated string string | Error string

definition DEFAULT_LOGO_URL :: string where
  "DEFAULT_LOGO_URL = ''https://i.postimg.cc/pTTvjx8r/Group-143.png''"

definition FONT_PATH :: string where
  "FONT_PATH = ''InterTight-Bold.ttf''"

text \<open>\<^verbatim>\<open>s.rstrip(ch)\<close> for a single character.\<close>

definition rstrip :: "char \<Rightarrow> string \<Rightarrow> string" where
  "rstrip ch s = rev (dropWhile (\<lambda>c. c = ch) (rev s))"

text \<open>
  \<^verbatim>\<open>
  current_y = bottom_line_y
  for line in lines:
      text_x = text_padding
      draw.text((text_x, current_y), line, font=font, fill=(255, 255, 255, 255))
      current_y += line_height
  \<close>
\<close>

fun draw_lines ::
  "('img, 'font) pil \<Rightarrow> 'font \<Rightarrow> int \<Rightarrow> int \<Rightarrow> 'img \<Rightarrow> int \<Rightarrow> ustr list \<Rightarrow> 'img"
where
  "draw_lines env font text_padding line_height img current_y [] = img"
| "draw_lines env font text_padding line_height img current_y (line # rest) =
     draw_lines env font text_padding line_height
       (draw_text env img (text_padding, current_y) line font) (current_y + line_height) rest"

text \<open>
  A step inside the \<^verbatim>\<open>try\<close> block: when the call raises, control leaves the block
  with the message \<^verbatim>\<open>str(e)\<close> and the store as it is at that point; otherwise the
  rest of the block runs with the value.
\<close>

definition try_step ::
  "string + 'a \<Rightarrow> store \<Rightarrow> ('a \<Rightarrow> (string + 'b) \<times> store) \<Rightarrow> (string + 'b) \<times> store"
where
  "try_step r s rest = (case r of Inl e \<Rightarrow> (Inl e, s) | Inr x \<Rightarrow> rest x)"

text \<open>
  The body of the \<^verbatim>\<open>try\<close> block, lines 51 to 128. After the resize the image is 1080
  wide and 1350 high, so \<^verbatim>\<open>int(img.width * 0.85)\<close> is 918. \<open>image_id\<close> is
  \<^verbatim>\<open>str(uuid.uuid4())\<close> and \<open>now\<close> is \<^verbatim>\<open>time.time()\<close> at line 119.
\<close>

definition edit_image_try ::
  "('img, 'font) pil \<Rightarrow> request \<Rightarrow> image_id \<Rightarrow> time \<Rightarrow> store \<Rightarrow> (string + reply) \<times> store"
where
  "edit_image_try env req image_id now s =
     try_step (get_json req) s (\<lambda>form_data.
     try_step (dict_get form_data ''image_url'' JNull) s (\<lambda>image_url.
     try_step (dict_get form_data ''text'' (JString (ustr ''Default Text''))) s (\<lambda>text.
     try_step (call_upper (upper env) text) s (\<lambda>text.
     try_step (dict_get form_data ''logo_url'' (JString (ustr DEFAULT_LOGO_URL))) s (\<lambda>logo_url.
     try_step (requests_get env image_url) s (\<lambda>content.
     try_step (open_base env content) s (\<lambda>img.
     try_step (requests_get env logo_url) s (\<lambda>logo_content.
     try_step (open_logo env logo_content) s (\<lambda>logo.
     try_step (compose env img logo) s (\<lambda>img.
     try_step (truetype env FONT_PATH 80) s (\<lambda>font.
     let max_text_width = 918;
         lines = wrap_text (\<lambda>t f. fst (textbbox env t f)) text font max_text_width;
         line_height = snd (textbbox env (ustr ''Ay'') font);
         num_lines = int (length lines);
         text_padding = 50;
         bottom_padding = 120;
         total_text_height = line_height * num_lines;
         bottom_line_y = 1350 - bottom_padding - total_text_height;
         img = draw_lines env font text_padding line_height img bottom_line_y lines
     in
     try_step (save_jpeg env img) s (\<lambda>output.
     let s' = store_image image_id output now s;
         temp_url = rstrip CHR ''/'' (host_url req) @ ''/temp_image/'' @ image_id
     in (Inr (Generated ''Image generated successfully'' temp_url), s')))))))))))))"

text \<open>
  The handler: \<^verbatim>\<open>jsonify\<close> of the reply with status 200, or
  \<^verbatim>\<open>except Exception as e: return jsonify({"error": str(e)}), 400\<close>.
\<close>

definition edit_image ::
  "('img, 'font) pil \<Rightarrow> request \<Rightarrow> image_id \<Rightarrow> time \<Rightarrow> store \<Rightarrow> (nat \<times> reply) \<times> store"
where
  "edit_image env req image_id now s =
     (case edit_image_try env req image_id now s of
        (Inr r, s') \<Rightarrow> ((200, r), s')
      | (Inl e, s') \<Rightarrow> ((400, Error e), s'))"

section \<open>Traces of requests\<close>

text \<open>
  The store starts empty and changes only through the two handlers and the sweep. A trace
  is replayed together with a ghost map that notes, for each id, the clock reading of the
  last successful \<open>edit_image\<close> that stored it.
\<close>

datatype ('img, 'font) event =
  Edit "('img, 'font) pil" request image_id time
| Temp image_id time time
| Cleanup time

fun step ::
  "('img, 'font) event \<Rightarrow> store \<times> (image_id \<rightharpoonup> time) \<Rightarrow> store \<times> (image_id \<rightharpoonup> time)"
where
  "step (Edit env req image_id now) (s, g) =
     (case edit_image env req image_id now s of
        ((status, r), s') \<Rightarrow> (s', if status = 200 then g(image_id \<mapsto> now) else g))"
| "step (Temp image_id now_sweep now_check) (s, g) =
     (snd (temp_image image_id now_sweep now_check s), g)"
| "step (Cleanup now) (s, g) = (cleanup_ephemeral_store now s, g)"

definition run :: "('img, 'font) event list \<Rightarrow> store \<times> (image_id \<rightharpoonup> time)" where
  "run evs = fold step evs (DAList.empty, Map.empty)"

section \<open>Shapes of words and lines\<close>

text \<open>A word has at least one character and no whitespace.\<close>

definition is_word :: "ustr \<Rightarrow> bool" where
  "is_word w \<longleftrightarrow> w \<noteq> [] \<and> (\<forall>c\<in>set w. \<not> isspace c)"

text \<open>Two whitespace characters next to each other somewhere in the string.\<close>

fun adjacent_spaces :: "ustr \<Rightarrow> bool" where
  "adjacent_spaces (a # b # cs) \<longleftrightarrow> (isspace a \<and> isspace b) \<or> adjacent_spaces (b # cs)"
| "adjacent_spaces _ \<longleftrightarrow> False"

section \<open>A metrics function for examples\<close>

text \<open>Ten units for each character, whatever the font: \<^verbatim>\<open>len(s) * 10\<close>.\<close>

definition len10 :: "ustr \<Rightarrow> unit \<Rightarrow> int" where
  "len10 s font = 10 * int (length s)"

section \<open>Outcomes of the generate handler\<close>

text \<open>
  What the \<^verbatim>\<open>try\<close> block can leave behind: a message with the store as it was, or the
  success reply with the one new entry.
\<close>

definition outcome_ok :: "image_id \<Rightarrow> time \<Rightarrow> store \<Rightarrow> (string + reply) \<times> store \<Rightarrow> bool" where
  "outcome_ok image_id now s res \<longleftrightarrow>
     (\<exists>e. res = (Inl e, s)) \<or>
     (\<exists>url output. res = (Inr (Generated ''Image generated successfully'' url),
                          store_image image_id output now s))"


section \<open>Sample stores, collaborators and requests\<close>

text \<open>
  Concrete inputs for the examples: a store with one image stored at time 0, a store with
  images stored at times 0 and 10, collaborators that always succeed, collaborators whose
  fetch or font load raises, a decoder that raises an exception without a message, and
  requests.
\<close>

definition one_image :: store where
  "one_image = store_image ''id'' ''X'' 0 DAList.empty"

definition two_images :: store where
  "two_images = store_image ''b'' ''Y'' 10 (store_image ''a'' ''X'' 0 DAList.empty)"

definition ascii_upper :: "ustr \<Rightarrow> ustr" where
  "ascii_upper s = map (\<lambda>c. if 97 \<le> c \<and> c \<le> 122 then c - 32 else c) s"

definition stub_pil :: "(unit, unit) pil" where
  "stub_pil =
     \<lparr>requests_get = (\<lambda>url. Inr ''PNG''),
      open_base = (\<lambda>content. Inr ()),
      open_logo = (\<lambda>content. Inr ()),
      compose = (\<lambda>img logo. Inr ()),
      truetype = (\<lambda>path size. Inr ()),
      textbbox = (\<lambda>s font. (10 * int (length s), 80)),
      draw_text = (\<lambda>img xy line font. ()),
      save_jpeg = (\<lambda>img. Inr ''JPEG''),
      upper = ascii_upper\<rparr>"

definition offline_pil :: "(unit, unit) pil" where
  "offline_pil = stub_pil\<lparr>requests_get := (\<lambda>url. Inl ''Connection refused'')\<rparr>"



definition sample_data :: json where
  "sample_data =
     JDict [(''image_url'', JString (ustr ''http://unreachable.invalid/a.png'')),
            (''text'', JString (ustr ''hello world''))]"

definition sample_request :: request where
  "sample_request = \<lparr>get_json = Inr sample_data, host_url = ''http://localhost:10000/''\<rparr>"


definition sample_trace :: "(unit, unit) event list" where
  "sample_trace =
     [Edit stub_pil sample_request ''a'' 0,
      Temp ''a'' 10 10,
      Edit offline_pil sample_request ''b'' 20,
      Cleanup 30]"

section \<open>Splitting and joining\<close>

lemma ustr_space [simp]: "ustr '' '' = [32]"
  by (simp add: ustr_def)

lemma isspace_32 [simp]: "isspace 32"
  by (simp add: isspace_def)

lemma split_ws_all_space: "\<forall>c\<in>set s. isspace c \<Longrightarrow> split_ws s = []"
  by (induction s) auto

lemma split_ws_words:
  "w \<in> set (split_ws s) \<Longrightarrow> w \<noteq> [] \<and> (\<forall>c\<in>set w. \<not> isspace c)"
proof (induction s arbitrary: w rule: split_ws.induct)
  case 1
  then show ?case by simp
next
  case (2 c cs)
  show ?case
  proof (cases "isspace c")
    case True
    with 2 show ?thesis by simp
  next
    case False
    then have "w = c # takeWhile (\<lambda>x. \<not> isspace x) cs \<or>
      w \<in> set (split_ws (dropWhile (\<lambda>x. \<not> isspace x) cs))"
      using "2.prems" by simp
    then show ?thesis
    proof
      assume w: "w = c # takeWhile (\<lambda>x. \<not> isspace x) cs"
      have "\<forall>x\<in>set (takeWhile (\<lambda>x. \<not> isspace x) cs). \<not> isspace x"
        by (blast dest: set_takeWhileD)
      with False w show ?thesis by simp
    next
      assume "w \<in> set (split_ws (dropWhile (\<lambda>x. \<not> isspace x) cs))"
      with False "2.IH"(2) show ?thesis by blast
    qed
  qed
qed

lemma split_ws_is_word: "w \<in> set (split_ws s) \<Longrightarrow> is_word w"
  using split_ws_words [of w s] by (simp add: is_word_def)

lemma split_ws_word_append:
  assumes "is_word w" and "r = [] \<or> isspace (hd r)"
  shows "split_ws (w @ r) = w # split_ws r"
proof -
  from assms(1) obtain c cs where w: "w = c # cs" and c: "\<not> isspace c"
    and cs: "\<forall>x\<in>set cs. \<not> isspace x"
    by (cases w) (simp_all add: is_word_def)
  have tw: "takeWhile (\<lambda>x. \<not> isspace x) (cs @ r) = cs"
  proof (cases r)
    case Nil
    with cs show ?thesis by simp
  next
    case (Cons a r')
    with assms(2) have "isspace a" by simp
    with cs Cons show ?thesis by (simp add: takeWhile_tail)
  qed
  have dw: "dropWhile (\<lambda>x. \<not> isspace x) (cs @ r) = r"
  proof (cases r)
    case Nil
    with cs show ?thesis by simp
  next
    case (Cons a r')
    with assms(2) have "isspace a" by simp
    with cs Cons show ?thesis by (simp add: dropWhile_append3)
  qed
  show ?thesis using c tw dw by (simp add: w)
qed

lemma split_ws_join_sp:
  "\<forall>w\<in>set ws. is_word w \<Longrightarrow> split_ws (join_sp ws) = ws"
proof (induction ws rule: join_sp.induct)
  case 1
  then show ?case by simp
next
  case (2 l)
  then show ?case using split_ws_word_append [of l "[]"] by simp
next
  case (3 l v va)
  then have "split_ws (l @ 32 # join_sp (v # va)) = l # split_ws (32 # join_sp (v # va))"
    using split_ws_word_append [of l "32 # join_sp (v # va)"] by simp
  with 3 show ?case by simp
qed

lemma join_sp_append:
  "a \<noteq> [] \<Longrightarrow> b \<noteq> [] \<Longrightarrow> join_sp (a @ b) = join_sp a @ 32 # join_sp b"
proof (induction a rule: join_sp.induct)
  case 1
  then show ?case by simp
next
  case (2 l)
  then obtain y ys where "b = y # ys" by (cases b) auto
  then show ?case by simp
next
  case (3 l v va)
  then show ?case by simp
qed

lemma join_sp_snoc: "g \<noteq> [] \<Longrightarrow> join_sp (g @ [w]) = join_sp g @ 32 # w"
  using join_sp_append [of g "[w]"] by simp


lemma wrap_loop_groups:
  assumes "g \<noteq> []" and "[] \<notin> set G"
  shows "\<exists>G'. wrap_loop draw font max_width (map join_sp G) (join_sp g) rest = map join_sp G' \<and>
               concat G' = concat G @ g @ rest \<and> [] \<notin> set G'"
  using assms
proof (induction rest arbitrary: G g)
  case Nil
  have "wrap_loop draw font max_width (map join_sp G) (join_sp g) [] = map join_sp (G @ [g])"
    by simp
  moreover have "concat (G @ [g]) = concat G @ g @ []" by simp
  moreover have "[] \<notin> set (G @ [g])" using Nil by simp
  ultimately show ?case by blast
next
  case (Cons word rest)
  have tl: "join_sp g @ ustr '' '' @ word = join_sp (g @ [word])"
    using Cons.prems(1) by (simp add: join_sp_snoc)
  show ?case
  proof (cases "draw (join_sp (g @ [word])) font \<le> max_width")
    case True
    from Cons.IH [of "g @ [word]" G] Cons.prems(2)
    obtain G' where "wrap_loop draw font max_width (map join_sp G) (join_sp (g @ [word])) rest = map join_sp G'"
      and "concat G' = concat G @ (g @ [word]) @ rest" and "[] \<notin> set G'"
      by auto
    with True tl show ?thesis by (auto simp: Let_def)
  next
    case False
    from Cons.IH [of "[word]" "G @ [g]"] Cons.prems
    obtain G' where "wrap_loop draw font max_width (map join_sp (G @ [g])) (join_sp [word]) rest = map join_sp G'"
      and "concat G' = concat (G @ [g]) @ [word] @ rest" and "[] \<notin> set G'"
      by auto
    with False tl show ?thesis by (auto simp: Let_def)
  qed
qed

lemma wrap_text_groups:
  assumes "split_ws text \<noteq> []"
  shows "\<exists>G. wrap_text draw text font max_width = map join_sp G \<and>
             concat G = split_ws text \<and> [] \<notin> set G"
proof -
  from assms obtain word0 rest where sp: "split_ws text = word0 # rest"
    by (cases "split_ws text") auto
  from wrap_loop_groups [of "[word0]" "[]" draw font max_width rest]
  obtain G where "wrap_loop draw font max_width [] word0 rest = map join_sp G"
    and "concat G = word0 # rest" and "[] \<notin> set G"
    by auto
  with sp show ?thesis by (auto simp: wrap_text_def)
qed

lemma join_sp_concat:
  "[] \<notin> set G \<Longrightarrow> join_sp (map join_sp G) = join_sp (concat G)"
proof (induction G)
  case Nil
  then show ?case by simp
next
  case (Cons g G)
  show ?case
  proof (cases G)
    case Nil
    then show ?thesis by simp
  next
    case (Cons v va)
    with Cons.prems have ne: "g \<noteq> []" "concat G \<noteq> []" by auto
    have "join_sp (map join_sp (g # G)) = join_sp g @ 32 # join_sp (map join_sp G)"
      using Cons by simp
    also have "\<dots> = join_sp g @ 32 # join_sp (concat G)"
      using Cons.IH Cons.prems by simp
    also have "\<dots> = join_sp (g @ concat G)"
      using ne by (simp add: join_sp_append)
    finally show ?thesis by simp
  qed
qed

lemma wrap_loop_fits:
  assumes "\<forall>l\<in>set lines. draw l font \<le> max_width \<or> l \<in> W"
    and "draw current_line font \<le> max_width \<or> current_line \<in> W"
    and "set rest \<subseteq> W"
  shows "\<forall>l\<in>set (wrap_loop draw font max_width lines current_line rest).
           draw l font \<le> max_width \<or> l \<in> W"
  using assms
proof (induction rest arbitrary: lines current_line)
  case Nil
  then show ?case by simp
next
  case (Cons word rest)
  show ?case
  proof (cases "draw (current_line @ ustr '' '' @ word) font \<le> max_width")
    case True
    with Cons.IH [of lines "current_line @ ustr '' '' @ word"] Cons.prems
    show ?thesis by (simp add: Let_def)
  next
    case False
    with Cons.IH [of "lines @ [current_line]" word] Cons.prems
    show ?thesis by (simp add: Let_def)
  qed
qed


lemma adjacent_spacesI:
  "isspace a \<Longrightarrow> isspace b \<Longrightarrow> adjacent_spaces (xs @ a # b # ys)"
proof (induction xs)
  case Nil
  then show ?case by simp
next
  case (Cons x xs)
  then show ?case by (cases xs) simp_all
qed

lemma adjacent_spaces_word:
  assumes "\<forall>c\<in>set w. \<not> isspace c" and "r \<noteq> []" and "\<not> isspace (hd r)" and "\<not> adjacent_spaces r"
  shows "\<not> adjacent_spaces (w @ 32 # r)"
  using assms(1)
proof (induction w)
  case Nil
  from assms(2,3,4) show ?case by (cases r) simp_all
next
  case (Cons c w)
  then show ?case by (cases w) simp_all
qed

lemma adjacent_spaces_no_space:
  "\<forall>c\<in>set w. \<not> isspace c \<Longrightarrow> \<not> adjacent_spaces w"
  by (induction w rule: adjacent_spaces.induct) simp_all

lemma join_sp_shape:
  assumes "g \<noteq> []" and "\<forall>w\<in>set g. is_word w"
  shows "join_sp g \<noteq> [] \<and> \<not> isspace (hd (join_sp g)) \<and> \<not> isspace (last (join_sp g)) \<and>
         \<not> adjacent_spaces (join_sp g)"
  using assms
proof (induction g rule: join_sp.induct)
  case 1
  then show ?case by simp
next
  case (2 l)
  then have "is_word l" by simp
  then show ?case
    by (simp add: is_word_def adjacent_spaces_no_space)
next
  case (3 l v va)
  then have l: "is_word l" and IH: "join_sp (v # va) \<noteq> []" "\<not> isspace (hd (join_sp (v # va)))"
    "\<not> isspace (last (join_sp (v # va)))" "\<not> adjacent_spaces (join_sp (v # va))"
    by simp_all
  from l have lne: "l \<noteq> []" and lns: "\<forall>c\<in>set l. \<not> isspace c" and "\<not> isspace (hd l)"
    by (auto simp: is_word_def)
  moreover have "\<not> adjacent_spaces (l @ 32 # join_sp (v # va))"
    using adjacent_spaces_word [OF lns IH(1) IH(2) IH(4)] .
  ultimately show ?case using IH by simp
qed

lemma split_ws_single: "is_word w \<Longrightarrow> split_ws w = [w]"
  using split_ws_join_sp [of "[w]"] by simp

section \<open>Empty input\<close>

text \<open>
  Claim C5. For every text that is empty or consists only of whitespace, \<open>wrap_text\<close>
  returns a list of exactly one line, and that line is the empty string.
\<close>

theorem wrap_text_blank:
  assumes "\<forall>c\<in>set text. isspace c"
  shows "wrap_text draw text font max_width = [[]]"
  using assms by (simp add: wrap_text_def split_ws_all_space)

theorem wrap_text_blank_witness:
  "isspace 32 \<and> isspace 9 \<and> isspace 10 \<and> isspace 160 \<and>
   wrap_text len10 [] () 139 = [[]] \<and>
   wrap_text len10 [32, 9, 10, 160] () 139 = [[]]"
  using wrap_text_blank [of "[]" len10 "()" 139]
    wrap_text_blank [of "[32, 9, 10, 160]" len10 "()" 139]
  by (simp add: isspace_def)

section \<open>Words survive wrapping\<close>

text \<open>
  Claim C1. For every text with at least one word, joining the lines returned by
  \<open>wrap_text\<close> with single spaces and splitting the result on whitespace gives back
  exactly the words of the text, in order, whatever the metrics and the maximal width are.
\<close>

theorem wrap_text_roundtrip:
  assumes "split_ws text \<noteq> []"
  shows "split_ws (join_sp (wrap_text draw text font max_width)) = split_ws text"
proof -
  from wrap_text_groups [OF assms, of draw font max_width]
  obtain G where G: "wrap_text draw text font max_width = map join_sp G"
    "concat G = split_ws text" "[] \<notin> set G"
    by blast
  have "\<forall>w\<in>set (concat G). is_word w"
    using G(2) by (simp add: split_ws_is_word)
  then have "split_ws (join_sp (concat G)) = concat G"
    by (rule split_ws_join_sp)
  with G show ?thesis by (simp add: join_sp_concat)
qed

theorem wrap_text_roundtrip_witness:
  "split_ws (ustr ''Hello  wide world foo '') \<noteq> [] \<and>
   wrap_text (\<lambda>s f. 10 * int (length s)) (ustr ''Hello  wide world foo '') () 139
     = [ustr ''Hello wide'', ustr ''world foo''] \<and>
   split_ws (join_sp [ustr ''Hello wide'', ustr ''world foo''])
     = [ustr ''Hello'', ustr ''wide'', ustr ''world'', ustr ''foo''] \<and>
   split_ws (ustr ''Hello  wide world foo '')
     = [ustr ''Hello'', ustr ''wide'', ustr ''world'', ustr ''foo'']"
  using wrap_text_roundtrip [of "ustr ''Hello  wide world foo ''" "\<lambda>s f. 10 * int (length s)" "()" 139]
  by (simp add: ustr_def wrap_text_def isspace_def)

section \<open>Widths of the lines\<close>

text \<open>
  Claim C2. Every line returned by \<open>wrap_text\<close> measures at most \<open>max_width\<close>, except
  possibly a line that is a single word of the text which alone is wider than
  \<open>max_width\<close>; in particular a line of two or more words measures at most
  \<open>max_width\<close>. For a text without words the one line is the empty string, which the
  wrapper does not measure: there the empty string is taken to fit, as it does for a
  pixel metric (width 0) and the positive \<open>max_width\<close> of the wrapper's contract.
\<close>

theorem wrap_text_width:
  assumes "line \<in> set (wrap_text draw text font max_width)"
    and "split_ws text \<noteq> [] \<or> draw [] font \<le> max_width"
  shows "(draw line font \<le> max_width \<or>
          (line \<in> set (split_ws text) \<and> split_ws line = [line] \<and> max_width < draw line font)) \<and>
         (2 \<le> length (split_ws line) \<longrightarrow> draw line font \<le> max_width)"
proof (cases "split_ws text")
  case Nil
  with assms show ?thesis by (simp add: wrap_text_def)
next
  case (Cons word0 rest)
  have "\<forall>l\<in>set (wrap_loop draw font max_width [] word0 rest).
          draw l font \<le> max_width \<or> l \<in> set (split_ws text)"
    by (rule wrap_loop_fits) (auto simp: Cons)
  with assms(1) Cons have fit: "draw line font \<le> max_width \<or> line \<in> set (split_ws text)"
    by (simp add: wrap_text_def)
  have single: "split_ws line = [line]" if "line \<in> set (split_ws text)"
    using that by (simp add: split_ws_single split_ws_is_word)
  from fit single show ?thesis by auto
qed

theorem wrap_text_width_witness:
  "wrap_text len10 (ustr ''HELLO WORLD FOO'') () 139 = [ustr ''HELLO WORLD'', ustr ''FOO''] \<and>
   2 \<le> length (split_ws (ustr ''HELLO WORLD'')) \<and>
   len10 (ustr ''HELLO WORLD'') () \<le> 139 \<and>
   wrap_text len10 (ustr ''A INCOMPREHENSIBILITIES B'') () 139
     = [ustr ''A'', ustr ''INCOMPREHENSIBILITIES'', ustr ''B''] \<and>
   139 < len10 (ustr ''INCOMPREHENSIBILITIES'') () \<and>
   ustr ''INCOMPREHENSIBILITIES'' \<in> set (split_ws (ustr ''A INCOMPREHENSIBILITIES B'')) \<and>
   split_ws (ustr ''INCOMPREHENSIBILITIES'') = [ustr ''INCOMPREHENSIBILITIES''] \<and>
   wrap_text len10 [32, 32] () 139 = [[]] \<and>
   split_ws [32, 32] = [] \<and>
   len10 [] () \<le> 139"
  using wrap_text_width [of "ustr ''HELLO WORLD''" len10 "ustr ''HELLO WORLD FOO''" "()" 139]
    wrap_text_width [of "ustr ''INCOMPREHENSIBILITIES''" len10
      "ustr ''A INCOMPREHENSIBILITIES B''" "()" 139]
    wrap_text_width [of "[]" len10 "[32, 32]" "()" 139]
  by (simp add: ustr_def wrap_text_def isspace_def len10_def)

section \<open>Shape of the lines\<close>

text \<open>
  Claim C9. For every text with at least one word, the lines returned by \<open>wrap_text\<close>
  are the words of the text cut into consecutive non-empty groups, each group joined by
  single spaces. Every line is non-empty, neither starts nor ends with whitespace, and has
  no two whitespace characters next to each other.
\<close>

theorem wrap_text_lines:
  assumes "split_ws text \<noteq> []"
  shows "(\<exists>G. wrap_text draw text font max_width = map join_sp G \<and>
              concat G = split_ws text \<and> [] \<notin> set G) \<and>
         (\<forall>line\<in>set (wrap_text draw text font max_width).
            line \<noteq> [] \<and> \<not> isspace (hd line) \<and> \<not> isspace (last line) \<and>
            (\<forall>xs a b ys. line = xs @ a # b # ys \<longrightarrow> \<not> (isspace a \<and> isspace b)) \<and>
            (\<exists>before g after. split_ws text = before @ g @ after \<and> g \<noteq> [] \<and>
               line = join_sp g))"
proof -
  from wrap_text_groups [OF assms, of draw font max_width]
  obtain G where G: "wrap_text draw text font max_width = map join_sp G"
    "concat G = split_ws text" "[] \<notin> set G"
    by blast
  have "line \<noteq> [] \<and> \<not> isspace (hd line) \<and> \<not> isspace (last line) \<and>
        (\<forall>xs a b ys. line = xs @ a # b # ys \<longrightarrow> \<not> (isspace a \<and> isspace b)) \<and>
        (\<exists>before g after. split_ws text = before @ g @ after \<and> g \<noteq> [] \<and> line = join_sp g)"
    if "line \<in> set (wrap_text draw text font max_width)" for line
  proof -
    from that G(1) obtain g where g: "g \<in> set G" "line = join_sp g" by auto
    with G(3) have ne: "g \<noteq> []" by auto
    from g(1) obtain G1 G2 where split: "G = G1 @ g # G2"
      by (auto simp: in_set_conv_decomp)
    then have dec: "split_ws text = concat G1 @ g @ concat G2"
      using G(2) by simp
    then have "set g \<subseteq> set (split_ws text)" by auto
    then have words: "\<forall>w\<in>set g. is_word w"
      by (auto intro: split_ws_is_word)
    from join_sp_shape [OF ne words] g(2)
    have shape: "line \<noteq> []" "\<not> isspace (hd line)" "\<not> isspace (last line)"
      "\<not> adjacent_spaces line"
      by simp_all
    have "\<not> (isspace a \<and> isspace b)" if "line = xs @ a # b # ys" for xs a b ys
      using shape(4) that adjacent_spacesI [of a b xs ys] by auto
    with shape dec ne g(2) show ?thesis by blast
  qed
  with G show ?thesis by blast
qed

theorem wrap_text_lines_witness:
  "split_ws (ustr '' HELLO   WORLD FOO '') \<noteq> [] \<and>
   wrap_text len10 (ustr '' HELLO   WORLD FOO '') () 139 = [ustr ''HELLO WORLD'', ustr ''FOO''] \<and>
   (\<exists>G. [ustr ''HELLO WORLD'', ustr ''FOO''] = map join_sp G \<and>
        concat G = [ustr ''HELLO'', ustr ''WORLD'', ustr ''FOO''] \<and> [] \<notin> set G) \<and>
   ustr ''HELLO WORLD'' \<in> set (wrap_text len10 (ustr '' HELLO   WORLD FOO '') () 139) \<and>
   ustr ''HELLO WORLD'' = ustr ''HELL'' @ 79 # 32 # ustr ''WORLD'' \<and>
   \<not> (isspace 79 \<and> isspace 32)"
  using wrap_text_lines [of "ustr '' HELLO   WORLD FOO ''" len10 "()" 139]
  by (simp add: ustr_def wrap_text_def isspace_def len10_def)

section \<open>Rounding to a double\<close>

lemma rne_bounds: "\<lfloor>r\<rfloor> \<le> rne r \<and> rne r \<le> \<lfloor>r\<rfloor> + 1"
  by (simp add: rne_def Let_def)

lemma rne_of_int [simp]: "rne (of_int n) = n"
  by (simp add: rne_def)

lemma rne_mono:
  assumes "r \<le> r'"
  shows "rne r \<le> rne r'"
proof (cases "\<lfloor>r\<rfloor> = \<lfloor>r'\<rfloor>")
  case True
  with assms have "r - of_int \<lfloor>r\<rfloor> \<le> r' - of_int \<lfloor>r'\<rfloor>" by simp
  with True show ?thesis by (auto simp: rne_def Let_def)
next
  case False
  with assms have "\<lfloor>r\<rfloor> < \<lfloor>r'\<rfloor>" using floor_mono [of r r'] by linarith
  with rne_bounds [of r] rne_bounds [of r'] show ?thesis by linarith
qed

lemma binade:
  assumes "0 < x"
  shows "2 powr of_int \<lfloor>log 2 x\<rfloor> \<le> x \<and> x < 2 powr of_int (\<lfloor>log 2 x\<rfloor> + 1)"
  using floor_log_eq_powr_iff [of x 2 "\<lfloor>log 2 x\<rfloor>"] assms by simp

lemma ulp_mult: "2 ^ 52 * 2 powr of_int (e - 52) = (2::real) powr of_int e"
proof -
  have "(2::real) ^ 52 = 2 powr 52" by simp
  then have "2 ^ 52 * 2 powr of_int (e - 52) = (2::real) powr (52 + of_int (e - 52))"
    by (simp only: powr_add)
  then show ?thesis by simp
qed

lemma ulp_mult': "2 ^ 53 * 2 powr of_int (e - 52) = (2::real) powr of_int (e + 1)"
proof -
  have "(2::real) ^ 53 = 2 powr 53" by simp
  then have "2 ^ 53 * 2 powr of_int (e - 52) = (2::real) powr (53 + of_int (e - 52))"
    by (simp only: powr_add)
  then show ?thesis by (simp add: add.commute)
qed

lemma round_double_pos:
  assumes "0 < x"
  shows "round_double x =
    of_int (rne (x / 2 powr of_int (\<lfloor>log 2 x\<rfloor> - 52))) * 2 powr of_int (\<lfloor>log 2 x\<rfloor> - 52)"
  using assms by (simp add: round_double_def Let_def)

lemma round_double_range:
  assumes "0 < x"
  shows "2 powr of_int \<lfloor>log 2 x\<rfloor> \<le> round_double x \<and>
         round_double x \<le> 2 powr of_int (\<lfloor>log 2 x\<rfloor> + 1)"
proof -
  let ?e = "\<lfloor>log 2 x\<rfloor>"
  let ?u = "(2::real) powr of_int (?e - 52)"
  have u: "0 < ?u" by simp
  from binade [OF assms] have lo: "2 powr of_int ?e \<le> x" and hi: "x < 2 powr of_int (?e + 1)"
    by simp_all
  have "2 ^ 52 * ?u \<le> x" using lo by (simp only: ulp_mult)
  then have "2 ^ 52 \<le> x / ?u" using u by (simp add: pos_le_divide_eq)
  then have "rne (of_int (2 ^ 52)) \<le> rne (x / ?u)" by (intro rne_mono) simp
  then have a: "(2::int) ^ 52 \<le> rne (x / ?u)" by (simp only: rne_of_int)
  have "x \<le> 2 ^ 53 * ?u" using hi by (simp only: ulp_mult')
  then have "x / ?u \<le> 2 ^ 53" using u by (simp add: pos_divide_le_eq)
  then have "rne (x / ?u) \<le> rne (of_int (2 ^ 53))" by (intro rne_mono) simp
  then have b: "rne (x / ?u) \<le> (2::int) ^ 53" by (simp only: rne_of_int)
  from a have "(2::real) ^ 52 \<le> of_int (rne (x / ?u))"
    by (metis of_int_le_iff of_int_numeral of_int_power)
  then have "2 ^ 52 * ?u \<le> of_int (rne (x / ?u)) * ?u"
    using u by (simp only: mult_le_cancel_right_pos)
  then have A: "2 powr of_int ?e \<le> round_double x"
    by (simp only: ulp_mult round_double_pos [OF assms])
  from b have "of_int (rne (x / ?u)) \<le> (2::real) ^ 53"
    by (metis of_int_le_iff of_int_numeral of_int_power)
  then have "of_int (rne (x / ?u)) * ?u \<le> 2 ^ 53 * ?u"
    using u by (simp only: mult_le_cancel_right_pos)
  then have B: "round_double x \<le> 2 powr of_int (?e + 1)"
    by (simp only: ulp_mult' round_double_pos [OF assms])
  from A B show ?thesis ..
qed

lemma round_double_pos_mono:
  assumes "0 < x" and "x \<le> y"
  shows "round_double x \<le> round_double y"
proof -
  from assms have y: "0 < y" by simp
  have le: "\<lfloor>log 2 x\<rfloor> \<le> \<lfloor>log 2 y\<rfloor>"
    using assms by (intro floor_mono) simp
  show ?thesis
  proof (cases "\<lfloor>log 2 x\<rfloor> = \<lfloor>log 2 y\<rfloor>")
    case True
    let ?u = "(2::real) powr of_int (\<lfloor>log 2 y\<rfloor> - 52)"
    have u: "0 < ?u" by simp
    from assms(2) u have "x / ?u \<le> y / ?u" by (simp add: divide_right_mono)
    then have "rne (x / ?u) \<le> rne (y / ?u)" by (rule rne_mono)
    then have "of_int (rne (x / ?u)) * ?u \<le> of_int (rne (y / ?u)) * ?u"
      using u by simp
    then show ?thesis
      by (simp only: round_double_pos [OF assms(1)] round_double_pos [OF y] True)
  next
    case False
    with le have "\<lfloor>log 2 x\<rfloor> + 1 \<le> \<lfloor>log 2 y\<rfloor>" by simp
    then have "(2::real) powr of_int (\<lfloor>log 2 x\<rfloor> + 1) \<le> 2 powr of_int \<lfloor>log 2 y\<rfloor>"
      by simp
    with round_double_range [OF assms(1)] round_double_range [OF y]
    show ?thesis by linarith
  qed
qed

lemma round_double_gt0: "0 < x \<Longrightarrow> 0 < round_double x"
proof -
  assume "0 < x"
  from round_double_range [OF this] have "2 powr of_int \<lfloor>log 2 x\<rfloor> \<le> round_double x" ..
  moreover have "(0::real) < 2 powr of_int \<lfloor>log 2 x\<rfloor>" by simp
  ultimately show ?thesis by linarith
qed

lemma round_double_minus: "round_double (- x) = - round_double x"
  by (simp add: round_double_def Let_def)

lemma round_double_0 [simp]: "round_double 0 = 0"
  by (simp add: round_double_def)

lemma round_double_mono:
  assumes "x \<le> y"
  shows "round_double x \<le> round_double y"
proof -
  consider "0 < x" | "x \<le> 0" "0 \<le> y" | "y < 0" by linarith
  then show ?thesis
  proof cases
    case 1
    then show ?thesis using assms by (rule round_double_pos_mono)
  next
    case 2
    have "round_double x \<le> 0"
    proof (cases "x = 0")
      case True
      then show ?thesis by simp
    next
      case False
      with 2 have "0 < - x" by simp
      from round_double_gt0 [OF this] show ?thesis by (simp add: round_double_minus)
    qed
    moreover have "0 \<le> round_double y"
    proof (cases "y = 0")
      case True
      then show ?thesis by simp
    next
      case False
      with 2 have "0 < y" by simp
      from round_double_gt0 [OF this] show ?thesis by simp
    qed
    ultimately show ?thesis by linarith
  next
    case 3
    with assms have "0 < - y" and "- y \<le> - x" by simp_all
    then have "round_double (- y) \<le> round_double (- x)" by (rule round_double_pos_mono)
    then show ?thesis by (simp add: round_double_minus)
  qed
qed

lemma round_double_binade:
  assumes "0 < x" and "2 powr of_int e \<le> x" and "x < 2 powr of_int (e + 1)"
  shows "round_double x = of_int (rne (x / 2 powr of_int (e - 52))) * 2 powr of_int (e - 52)"
proof -
  have "\<lfloor>log 2 x\<rfloor> = e"
    using floor_log_eq_powr_iff [of x 2 e] assms by simp
  with round_double_pos [OF assms(1)] show ?thesis by simp
qed

lemma double_le_round: "is_double t \<Longrightarrow> t \<le> x \<Longrightarrow> t \<le> round_double x"
  using round_double_mono [of t x] by (simp add: is_double_def)

lemma round_le_double: "is_double t \<Longrightarrow> x \<le> t \<Longrightarrow> round_double x \<le> t"
  using round_double_mono [of x t] by (simp add: is_double_def)

lemma is_doubleI:
  assumes "0 < x" and "2 powr of_int e \<le> x" and "x < 2 powr of_int (e + 1)"
    and "of_int (rne (x / 2 powr of_int (e - 52))) * 2 powr of_int (e - 52) = x"
  shows "is_double x"
  using round_double_binade [OF assms(1-3)] assms(4) by (simp add: is_double_def)

lemma fadd_exact: "is_double (x + y) \<Longrightarrow> fadd x y = x + y"
  by (simp add: fadd_def is_double_def)

lemma fadd_0_60: "fadd 0 60 = 60"
  using round_double_binade [of 60 5] by (simp add: fadd_def rne_def powr_minus)

lemma fadd_10_60: "fadd 10 60 = 70"
  using round_double_binade [of 70 6] by (simp add: fadd_def rne_def powr_minus)

lemma fadd_100_60: "fadd 100 60 = 160"
  using round_double_binade [of 160 7] by (simp add: fadd_def rne_def powr_minus)

lemma fadd_0_1_60: "fadd double_0_1 60 = double_60_1"
  using round_double_binade [of "3602879701896397 / 2 ^ 55 + 60" 5]
  by (simp add: fadd_def double_0_1_def double_60_1_def rne_def powr_minus)

lemma fadd_1e17_60: "fadd 100000000000000000 60 = 100000000000000064"
  using round_double_binade [of "100000000000000060" 56]
  by (simp add: fadd_def rne_def powr_minus)

lemma fadd_2038: "fadd clock_2038 60 = expiry_2038"
  using round_double_binade [of "2 ^ 31 - 30 + 3 / 2 ^ 22 + 60" 31]
  by (simp add: fadd_def clock_2038_def expiry_2038_def rne_def powr_minus)

lemma is_double_59: "is_double 59"
  by (rule is_doubleI [of 59 5]) (simp_all add: rne_def powr_minus)

lemma is_double_61: "is_double 61"
  by (rule is_doubleI [of 61 5]) (simp_all add: rne_def powr_minus)

lemma is_double_0_1: "is_double double_0_1"
  unfolding double_0_1_def
  by (rule is_doubleI [of _ "- 4"]) (simp_all add: rne_def powr_minus)

lemma is_double_60_1: "is_double double_60_1"
  unfolding double_60_1_def
  by (rule is_doubleI [of _ 5]) (simp_all add: rne_def powr_minus)

lemma is_double_2038_a: "is_double clock_2038"
  unfolding clock_2038_def
  by (rule is_doubleI [of _ 30]) (simp_all add: rne_def powr_minus)

lemma is_double_2038_b: "is_double expiry_2038"
  unfolding expiry_2038_def
  by (rule is_doubleI [of _ 31]) (simp_all add: rne_def powr_minus)

section \<open>Lookups in the store\<close>

lemma lookup_fold_delete:
  "DAList.lookup (fold DAList.delete ks s) k = (if k \<in> set ks then None else DAList.lookup s k)"
  by (induction ks arbitrary: s) simp_all

lemma impl_of_fold_delete:
  "DAList.impl_of (fold DAList.delete ks s) = filter (\<lambda>p. fst p \<notin> set ks) (DAList.impl_of s)"
proof (induction ks arbitrary: s)
  case Nil
  then show ?case by simp
next
  case (Cons k ks)
  have "DAList.impl_of (DAList.delete k s) = filter (\<lambda>p. fst p \<noteq> k) (DAList.impl_of s)"
    by (auto simp: DAList.delete.rep_eq AList.delete_eq intro: filter_cong)
  with Cons show ?case by (auto intro: filter_cong)
qed

lemma in_impl_of_iff: "(k, e) \<in> set (DAList.impl_of s) \<longleftrightarrow> DAList.lookup s k = Some e"
  by (simp add: DAList.lookup.rep_eq)

lemma mem_expired_keys:
  "k \<in> set (expired_keys now s) \<longleftrightarrow> (\<exists>e. DAList.lookup s k = Some e \<and> now > expires_at e)"
  by (auto simp: expired_keys_def in_impl_of_iff)

lemma lookup_cleanup:
  "DAList.lookup (cleanup_ephemeral_store now s) k =
     (case DAList.lookup s k of
        None \<Rightarrow> None
      | Some e \<Rightarrow> if now > expires_at e then None else Some e)"
  by (auto simp: cleanup_ephemeral_store_def lookup_fold_delete mem_expired_keys
      split: option.splits)

lemma impl_of_cleanup:
  "DAList.impl_of (cleanup_ephemeral_store now s) =
     filter (\<lambda>(key, val). \<not> now > expires_at val) (DAList.impl_of s)"
proof -
  have "fst p \<notin> set (expired_keys now s) \<longleftrightarrow> (case p of (key, val) \<Rightarrow> \<not> now > expires_at val)"
    if "p \<in> set (DAList.impl_of s)" for p
  proof -
    obtain k e where p: "p = (k, e)" by (cases p)
    with that have "DAList.lookup s k = Some e" by (simp add: in_impl_of_iff)
    with p show ?thesis by (simp add: mem_expired_keys)
  qed
  then show ?thesis
    by (simp add: cleanup_ephemeral_store_def impl_of_fold_delete cong: filter_cong)
qed

lemma cleanup_store_sub:
  "DAList.lookup (cleanup_ephemeral_store now s) k = Some e \<Longrightarrow> DAList.lookup s k = Some e"
  by (simp add: lookup_cleanup split: option.splits if_splits)

lemma lookup_store_image:
  "DAList.lookup (store_image image_id payload now s) k =
     (if k = image_id then Some \<lparr>data = payload, expires_at = fadd now 60\<rparr> else DAList.lookup s k)"
  by (simp add: store_image_def IMAGE_LIFETIME_def DAList.lookup_update)

lemma temp_image_hit:
  assumes "DAList.lookup s image_id = Some e"
    and "\<not> now_sweep > expires_at e" and "\<not> now_check > expires_at e"
  shows "temp_image image_id now_sweep now_check s =
           (Inr (data e), cleanup_ephemeral_store now_sweep s)"
  using assms by (simp add: temp_image_def lookup_cleanup)

lemma temp_image_swept:
  assumes "DAList.lookup s image_id = Some e" and "now_sweep > expires_at e"
  shows "temp_image image_id now_sweep now_check s =
           (Inl (Abort 404 ''Image not found or expired''), cleanup_ephemeral_store now_sweep s)"
  using assms by (simp add: temp_image_def lookup_cleanup)

lemma temp_image_absent:
  assumes "DAList.lookup s image_id = None"
  shows "temp_image image_id now_sweep now_check s =
           (Inl (Abort 404 ''Image not found or expired''), cleanup_ephemeral_store now_sweep s)"
  using assms by (simp add: temp_image_def lookup_cleanup)

lemma temp_image_expired:
  assumes "DAList.lookup s image_id = Some e"
    and "\<not> now_sweep > expires_at e" and "now_check > expires_at e"
  shows "temp_image image_id now_sweep now_check s =
           (Inl (Abort 404 ''Image has expired''),
            DAList.delete image_id (cleanup_ephemeral_store now_sweep s))"
  using assms by (simp add: temp_image_def lookup_cleanup)

lemma temp_image_miss:
  assumes "DAList.lookup s image_id = Some e"
    and "now_sweep > expires_at e \<or> now_check > expires_at e"
  shows "(\<exists>d. fst (temp_image image_id now_sweep now_check s) = Inl (Abort 404 d)) \<and>
         DAList.lookup (snd (temp_image image_id now_sweep now_check s)) image_id = None"
proof (cases "now_sweep > expires_at e")
  case True
  with assms(1) show ?thesis
    by (simp add: temp_image_swept lookup_cleanup)
next
  case False
  with assms show ?thesis
    by (simp add: temp_image_expired)
qed

lemma temp_image_store_sub:
  "DAList.lookup (snd (temp_image image_id now_sweep now_check s)) k = Some e \<Longrightarrow>
   DAList.lookup s k = Some e"
  by (auto simp: temp_image_def lookup_cleanup Let_def split: option.splits if_splits)

section \<open>Outcomes of \<open>edit_image\<close>\<close>

lemma try_step_Inl [simp]: "try_step (Inl e) s rest = (Inl e, s)"
  by (simp add: try_step_def)

lemma try_step_Inr [simp]: "try_step (Inr x) s rest = rest x"
  by (simp add: try_step_def)

lemma outcome_ok_Inl: "outcome_ok image_id now s (Inl e, s)"
  by (simp add: outcome_ok_def)

lemma outcome_ok_Inr:
  "outcome_ok image_id now s
     (Inr (Generated ''Image generated successfully'' url), store_image image_id output now s)"
  unfolding outcome_ok_def by blast

lemma outcome_ok_try_step:
  assumes "\<And>x. r = Inr x \<Longrightarrow> outcome_ok image_id now s (rest x)"
  shows "outcome_ok image_id now s (try_step r s rest)"
  using assms by (cases r) (simp_all add: outcome_ok_Inl)

lemma edit_image_try_outcome:
  "outcome_ok image_id now s (edit_image_try env req image_id now s)"
  unfolding edit_image_try_def Let_def
  by (intro outcome_ok_try_step outcome_ok_Inr)


lemma edit_image_cases:
  "(\<exists>e. edit_image env req image_id now s = ((400, Error e), s)) \<or>
   (\<exists>url output. edit_image env req image_id now s =
      ((200, Generated ''Image generated successfully'' url), store_image image_id output now s))"
  using edit_image_try_outcome [of image_id now s env req]
  by (auto simp: outcome_ok_def edit_image_def)




lemma edit_image_stub:
  "edit_image stub_pil sample_request image_id now s =
     ((200, Generated ''Image generated successfully''
              (''http://localhost:10000/temp_image/'' @ image_id)),
      store_image image_id ''JPEG'' now s)"
  by (simp add: edit_image_def edit_image_try_def stub_pil_def sample_request_def
      sample_data_def dict_get_def call_upper_def rstrip_def)

section \<open>Entries along a trace\<close>

lemma step_stamped:
  assumes "\<And>k e. DAList.lookup (fst st) k = Some e \<Longrightarrow>
             \<exists>t0. snd st k = Some t0 \<and> expires_at e = fadd t0 60"
    and "DAList.lookup (fst (step ev st)) k = Some e"
  shows "\<exists>t0. snd (step ev st) k = Some t0 \<and> expires_at e = fadd t0 60"
proof -
  obtain s g where st: "st = (s, g)" by (cases st)
  show ?thesis
  proof (cases ev)
    case (Edit env req image_id now)
    from edit_image_cases [of env req image_id now s]
    consider e' where "edit_image env req image_id now s = ((400, Error e'), s)"
      | url jpeg where "edit_image env req image_id now s =
          ((200, Generated ''Image generated successfully'' url),
           store_image image_id jpeg now s)"
      by blast
    then show ?thesis
    proof cases
      case 1
      with assms st Edit show ?thesis by simp
    next
      case 2
      show ?thesis
      proof (cases "k = image_id")
        case True
        with assms(2) st Edit 2 show ?thesis by (auto simp: lookup_store_image)
      next
        case False
        with assms(2) st Edit 2 have "DAList.lookup s k = Some e"
          by (simp add: lookup_store_image)
        with assms(1) [of k e] st have "\<exists>t0. g k = Some t0 \<and> expires_at e = fadd t0 60" by simp
        with False st Edit 2 show ?thesis by simp
      qed
    qed
  next
    case (Temp image_id now_sweep now_check)
    with assms(2) st
    have "DAList.lookup (snd (temp_image image_id now_sweep now_check s)) k = Some e"
      by simp
    then have "DAList.lookup s k = Some e"
      by (rule temp_image_store_sub)
    with assms(1) [of k e] st Temp show ?thesis by simp
  next
    case (Cleanup now)
    with assms(2) st
    have "DAList.lookup (cleanup_ephemeral_store now s) k = Some e"
      by simp
    then have "DAList.lookup s k = Some e"
      by (rule cleanup_store_sub)
    with assms(1) [of k e] st Cleanup show ?thesis by simp
  qed
qed

lemma fold_step_stamped:
  assumes "\<And>k e. DAList.lookup (fst st) k = Some e \<Longrightarrow>
             \<exists>t0. snd st k = Some t0 \<and> expires_at e = fadd t0 60"
    and "DAList.lookup (fst (fold step evs st)) k = Some e"
  shows "\<exists>t0. snd (fold step evs st) k = Some t0 \<and> expires_at e = fadd t0 60"
  using assms
proof (induction evs arbitrary: st)
  case Nil
  then show ?case by simp
next
  case (Cons ev evs)
  from Cons.prems(2)
  have l: "DAList.lookup (fst (fold step evs (step ev st))) k = Some e" by simp
  have "\<exists>t0. snd (fold step evs (step ev st)) k = Some t0 \<and> expires_at e = fadd t0 60"
  proof (rule Cons.IH)
    show "\<exists>t0. snd (step ev st) k' = Some t0 \<and> expires_at e' = fadd t0 60"
      if "DAList.lookup (fst (step ev st)) k' = Some e'" for k' e'
      using Cons.prems(1) that by (rule step_stamped)
    show "DAList.lookup (fst (fold step evs (step ev st))) k = Some e" by (rule l)
  qed
  then show ?case by simp
qed

lemma run_stamped:
  "DAList.lookup (fst (run evs)) k = Some e \<Longrightarrow>
   \<exists>t0. snd (run evs) k = Some t0 \<and> expires_at e = fadd t0 60"
  unfolding run_def by (rule fold_step_stamped) simp_all

section \<open>The sweep\<close>

text \<open>
  Claim C4. For every store and every time \<open>now\<close>, \<open>cleanup_ephemeral_store\<close> removes an
  entry exactly when \<open>now > expires_at\<close>: an expired entry is gone afterwards, an entry
  that is not expired is found afterwards with the same payload and expiry, no entry
  appears, and the surviving entries are the old ones in their old order.
\<close>

theorem cleanup_exact:
  "(\<forall>e. DAList.lookup s k = Some e \<and> now > expires_at e \<longrightarrow>
        DAList.lookup (cleanup_ephemeral_store now s) k = None) \<and>
   (\<forall>e. DAList.lookup s k = Some e \<and> \<not> now > expires_at e \<longrightarrow>
        DAList.lookup (cleanup_ephemeral_store now s) k = Some e) \<and>
   (DAList.lookup s k = None \<longrightarrow> DAList.lookup (cleanup_ephemeral_store now s) k = None) \<and>
   DAList.impl_of (cleanup_ephemeral_store now s) =
     filter (\<lambda>(key, val). \<not> now > expires_at val) (DAList.impl_of s)"
  by (simp add: lookup_cleanup impl_of_cleanup)

theorem cleanup_exact_witness:
  "DAList.lookup two_images ''a'' = Some \<lparr>data = ''X'', expires_at = 60\<rparr> \<and>
   DAList.lookup two_images ''b'' = Some \<lparr>data = ''Y'', expires_at = 70\<rparr> \<and>
   DAList.lookup two_images ''c'' = None \<and>
   (65::real) > 60 \<and> \<not> (65::real) > 70 \<and>
   DAList.lookup (cleanup_ephemeral_store 65 two_images) ''a'' = None \<and>
   DAList.lookup (cleanup_ephemeral_store 65 two_images) ''b''
     = Some \<lparr>data = ''Y'', expires_at = 70\<rparr> \<and>
   DAList.lookup (cleanup_ephemeral_store 65 two_images) ''c'' = None \<and>
   DAList.impl_of (cleanup_ephemeral_store 65 two_images)
     = [(''b'', \<lparr>data = ''Y'', expires_at = 70\<rparr>)]"
  using cleanup_exact [of two_images "''a''" 65] cleanup_exact [of two_images "''b''" 65]
    cleanup_exact [of two_images "''c''" 65]
  by (simp add: two_images_def store_image_def IMAGE_LIFETIME_def
      DAList.update.rep_eq DAList.empty.rep_eq fadd_0_60 fadd_10_60)

section \<open>Insert, then get\<close>

text \<open>
  Claim C3, amended. An image stored at clock reading \<open>t0\<close> gets as expiry the double sum
  of \<open>t0\<close> and 60, the double nearest to \<open>t0 + 60\<close>. While that entry is the one found
  under its id, \<open>temp_image\<close> returns the payload when both clock readings of the request
  are less than 60 after \<open>t0\<close>; it answers 404 and leaves the id absent from the store
  when a reading is more than 60 after \<open>t0\<close> and is not the stored expiry itself; and at
  the stored expiry it still returns the payload. When \<open>t0 + 60\<close> is a double the stored
  expiry is \<open>t0 + 60\<close>, so every reading more than 60 after \<open>t0\<close> is answered with 404:
  stored at 0, a get at 59 returns the payload and a get at 61 is not found.
\<close>

theorem insert_then_get:
  assumes "DAList.lookup s image_id = DAList.lookup (store_image image_id payload t0 s0) image_id"
    and "is_double now_sweep" and "is_double now_check"
  shows "DAList.lookup (store_image image_id payload t0 s0) image_id
           = Some \<lparr>data = payload, expires_at = fadd t0 60\<rparr> \<and>
         (now_sweep - t0 < 60 \<and> now_check - t0 < 60 \<longrightarrow>
            fst (temp_image image_id now_sweep now_check s) = Inr payload) \<and>
         ((now_sweep - t0 > 60 \<and> now_sweep \<noteq> fadd t0 60) \<or>
          (now_check - t0 > 60 \<and> now_check \<noteq> fadd t0 60) \<longrightarrow>
            (\<exists>d. fst (temp_image image_id now_sweep now_check s) = Inl (Abort 404 d)) \<and>
            DAList.lookup (snd (temp_image image_id now_sweep now_check s)) image_id = None) \<and>
         (now_sweep = fadd t0 60 \<and> now_check = fadd t0 60 \<longrightarrow>
            fst (temp_image image_id now_sweep now_check s) = Inr payload) \<and>
         (is_double (t0 + 60) \<longrightarrow> fadd t0 60 = t0 + 60)"
proof -
  let ?e = "\<lparr>data = payload, expires_at = fadd t0 60\<rparr>"
  have ins: "DAList.lookup (store_image image_id payload t0 s0) image_id = Some ?e"
    by (simp add: lookup_store_image)
  with assms(1) have s: "DAList.lookup s image_id = Some ?e" by simp
  have below: "t \<le> fadd t0 60" if "is_double t" and "t - t0 < 60" for t
  proof -
    from that(2) have "t \<le> t0 + 60" by simp
    with that(1) show ?thesis unfolding fadd_def by (rule double_le_round)
  qed
  have above: "fadd t0 60 \<le> t" if "is_double t" and "t - t0 > 60" for t
  proof -
    from that(2) have "t0 + 60 \<le> t" by simp
    with that(1) show ?thesis unfolding fadd_def by (rule round_le_double)
  qed
  have hit: "fst (temp_image image_id now_sweep now_check s) = Inr payload"
    if "now_sweep - t0 < 60 \<and> now_check - t0 < 60"
  proof -
    from that assms(2,3) have "now_sweep \<le> fadd t0 60" and "now_check \<le> fadd t0 60"
      by (simp_all add: below)
    then have "\<not> now_sweep > expires_at ?e" and "\<not> now_check > expires_at ?e" by simp_all
    from temp_image_hit [OF s this] show ?thesis by simp
  qed
  have miss: "(\<exists>d. fst (temp_image image_id now_sweep now_check s) = Inl (Abort 404 d)) \<and>
      DAList.lookup (snd (temp_image image_id now_sweep now_check s)) image_id = None"
    if "(now_sweep - t0 > 60 \<and> now_sweep \<noteq> fadd t0 60) \<or>
        (now_check - t0 > 60 \<and> now_check \<noteq> fadd t0 60)"
  proof -
    from that have "now_sweep > expires_at ?e \<or> now_check > expires_at ?e"
    proof
      assume a: "now_sweep - t0 > 60 \<and> now_sweep \<noteq> fadd t0 60"
      with above [OF assms(2)] have "fadd t0 60 \<le> now_sweep" by simp
      with a show ?thesis by simp
    next
      assume a: "now_check - t0 > 60 \<and> now_check \<noteq> fadd t0 60"
      with above [OF assms(3)] have "fadd t0 60 \<le> now_check" by simp
      with a show ?thesis by simp
    qed
    with s show ?thesis by (rule temp_image_miss)
  qed
  have edge: "fst (temp_image image_id now_sweep now_check s) = Inr payload"
    if "now_sweep = fadd t0 60 \<and> now_check = fadd t0 60"
  proof -
    from that have "\<not> now_sweep > expires_at ?e" and "\<not> now_check > expires_at ?e" by simp_all
    from temp_image_hit [OF s this] show ?thesis by simp
  qed
  have exact: "fadd t0 60 = t0 + 60" if "is_double (t0 + 60)"
    using that by (rule fadd_exact)
  from ins hit miss edge exact show ?thesis by blast
qed

theorem insert_then_get_witness:
  "DAList.lookup one_image ''id'' = Some \<lparr>data = ''X'', expires_at = 60\<rparr> \<and>
   is_double 59 \<and> is_double 61 \<and>
   (59::real) - 0 < 60 \<and>
   fst (temp_image ''id'' 59 59 one_image) = Inr ''X'' \<and>
   (61::real) - 0 > 60 \<and> (61::real) \<noteq> fadd 0 60 \<and>
   fst (temp_image ''id'' 61 61 one_image) = Inl (Abort 404 ''Image not found or expired'') \<and>
   DAList.lookup (snd (temp_image ''id'' 61 61 one_image)) ''id'' = None \<and>
   fst (temp_image ''id'' 59 61 one_image) = Inl (Abort 404 ''Image has expired'') \<and>
   DAList.lookup (snd (temp_image ''id'' 59 61 one_image)) ''id'' = None"
  using insert_then_get [of one_image "''id''" "''X''" 0 DAList.empty 59 59]
    insert_then_get [of one_image "''id''" "''X''" 0 DAList.empty 61 61]
    insert_then_get [of one_image "''id''" "''X''" 0 DAList.empty 59 61]
  by (simp add: one_image_def temp_image_def lookup_cleanup lookup_store_image fadd_0_60
      is_double_59 is_double_61)

text \<open>
  As the claim is stated it fails where the double sum rounds up. Stored at the double
  \<^verbatim>\<open>0.1\<close>, the expiry is the double \<^verbatim>\<open>60.1\<close>, which is more than 60 after \<^verbatim>\<open>0.1\<close>; a get
  at that reading is more than 60 after the insert and returns the payload. The same
  happens at a clock reading of January 2038.
\<close>

theorem insert_then_get_counterexample:
  "is_double double_0_1 \<and> is_double double_60_1 \<and>
   double_60_1 - double_0_1 > 60 \<and>
   fst (temp_image ''id'' double_60_1 double_60_1
          (store_image ''id'' ''X'' double_0_1 DAList.empty)) = Inr ''X'' \<and>
   is_double clock_2038 \<and> is_double expiry_2038 \<and>
   expiry_2038 - clock_2038 > 60 \<and>
   fst (temp_image ''id'' expiry_2038 expiry_2038
          (store_image ''id'' ''X'' clock_2038 DAList.empty)) = Inr ''X''"
proof -
  have a: "double_60_1 - double_0_1 > 60"
    by (simp add: double_0_1_def double_60_1_def)
  have b: "fst (temp_image ''id'' double_60_1 double_60_1
          (store_image ''id'' ''X'' double_0_1 DAList.empty)) = Inr ''X''"
    by (simp add: temp_image_def lookup_cleanup lookup_store_image fadd_0_1_60)
  have c: "expiry_2038 - clock_2038 > 60"
    by (simp add: clock_2038_def expiry_2038_def)
  have d: "fst (temp_image ''id'' expiry_2038 expiry_2038
          (store_image ''id'' ''X'' clock_2038 DAList.empty)) = Inr ''X''"
    by (simp add: temp_image_def lookup_cleanup lookup_store_image fadd_2038)
  from a b c d is_double_0_1 is_double_60_1 is_double_2038_a is_double_2038_b
  show ?thesis by blast
qed

section \<open>A get does not touch the entry\<close>

text \<open>
  Claim C8. When the entry of an id is present and not expired at the time of the get,
  \<open>temp_image\<close> returns its payload and the entry stays in the store with the same
  payload and the same expiry; every other entry that is not expired stays as it is, and
  no entry appears or changes.
\<close>

theorem get_keeps_entry:
  assumes "DAList.lookup s image_id = Some e"
    and "\<not> now_sweep > expires_at e" and "\<not> now_check > expires_at e"
  shows "fst (temp_image image_id now_sweep now_check s) = Inr (data e) \<and>
         DAList.lookup (snd (temp_image image_id now_sweep now_check s)) image_id = Some e \<and>
         (\<forall>k e'. DAList.lookup s k = Some e' \<and> \<not> now_sweep > expires_at e' \<longrightarrow>
            DAList.lookup (snd (temp_image image_id now_sweep now_check s)) k = Some e') \<and>
         (\<forall>k e'. DAList.lookup (snd (temp_image image_id now_sweep now_check s)) k = Some e' \<longrightarrow>
            DAList.lookup s k = Some e')"
proof -
  have t: "temp_image image_id now_sweep now_check s =
      (Inr (data e), cleanup_ephemeral_store now_sweep s)"
    using assms by (rule temp_image_hit)
  have "DAList.lookup (cleanup_ephemeral_store now_sweep s) image_id = Some e"
    using assms(1,2) by (simp add: lookup_cleanup)
  moreover have "DAList.lookup (cleanup_ephemeral_store now_sweep s) k = Some e'"
    if "DAList.lookup s k = Some e' \<and> \<not> now_sweep > expires_at e'" for k e'
    using that by (simp add: lookup_cleanup)
  moreover have "DAList.lookup s k = Some e'"
    if "DAList.lookup (cleanup_ephemeral_store now_sweep s) k = Some e'" for k e'
    using that by (simp add: lookup_cleanup split: option.splits if_splits)
  ultimately show ?thesis unfolding t fst_conv snd_conv by blast
qed

theorem get_keeps_entry_witness:
  "DAList.lookup two_images ''b'' = Some \<lparr>data = ''Y'', expires_at = 70\<rparr> \<and>
   \<not> (65::real) > 70 \<and>
   fst (temp_image ''b'' 65 65 two_images) = Inr ''Y'' \<and>
   DAList.lookup (snd (temp_image ''b'' 65 65 two_images)) ''b''
     = Some \<lparr>data = ''Y'', expires_at = 70\<rparr> \<and>
   DAList.lookup two_images ''a'' = Some \<lparr>data = ''X'', expires_at = 60\<rparr> \<and>
   \<not> (50::real) > 60 \<and>
   DAList.lookup (snd (temp_image ''b'' 50 50 two_images)) ''a''
     = Some \<lparr>data = ''X'', expires_at = 60\<rparr>"
proof -
  have b: "DAList.lookup two_images ''b'' = Some \<lparr>data = ''Y'', expires_at = 70\<rparr>"
    and a: "DAList.lookup two_images ''a'' = Some \<lparr>data = ''X'', expires_at = 60\<rparr>"
    by (simp_all add: two_images_def lookup_store_image fadd_0_60 fadd_10_60)
  have fresh65: "\<not> 65 > expires_at \<lparr>data = ''Y'', expires_at = 70\<rparr>"
    and fresh50: "\<not> 50 > expires_at \<lparr>data = ''Y'', expires_at = 70\<rparr>"
    by simp_all
  note at65 = get_keeps_entry [OF b fresh65 fresh65]
  note at50 = get_keeps_entry [OF b fresh50 fresh50]
  have "fst (temp_image ''b'' 65 65 two_images) = Inr ''Y''"
    using at65 [THEN conjunct1] by simp
  moreover have "DAList.lookup (snd (temp_image ''b'' 65 65 two_images)) ''b''
      = Some \<lparr>data = ''Y'', expires_at = 70\<rparr>"
    using at65 [THEN conjunct2, THEN conjunct1] .
  moreover have "DAList.lookup (snd (temp_image ''b'' 50 50 two_images)) ''a''
      = Some \<lparr>data = ''X'', expires_at = 60\<rparr>"
    using at50 [THEN conjunct2, THEN conjunct2, THEN conjunct1, rule_format,
        of "''a''" "\<lparr>data = ''X'', expires_at = 60\<rparr>"] a
    by simp
  ultimately show ?thesis using a b by simp
qed

section \<open>Strict comparison\<close>

text \<open>
  Claim C10. When the clock reads exactly \<open>expires_at\<close>, the sweep keeps the entry and
  \<open>temp_image\<close> returns the payload. The sweep removes a present entry exactly when
  \<open>now > expires_at\<close>, and \<open>temp_image\<close> answers with an error for a present entry exactly
  when one of its clock readings is greater than \<open>expires_at\<close>.
\<close>

theorem expiry_is_strict:
  assumes "DAList.lookup s image_id = Some e"
  shows "(expires_at e = now \<longrightarrow>
            DAList.lookup (cleanup_ephemeral_store now s) image_id = Some e \<and>
            fst (temp_image image_id now now s) = Inr (data e)) \<and>
         (DAList.lookup (cleanup_ephemeral_store now s) image_id = None \<longleftrightarrow> now > expires_at e) \<and>
         ((\<exists>err. fst (temp_image image_id now_sweep now_check s) = Inl err) \<longleftrightarrow>
            now_sweep > expires_at e \<or> now_check > expires_at e)"
proof -
  have a: "DAList.lookup (cleanup_ephemeral_store now s) image_id = Some e \<and>
      fst (temp_image image_id now now s) = Inr (data e)" if "expires_at e = now"
    using that assms temp_image_hit [OF assms, of now now] by (simp add: lookup_cleanup)
  have b: "DAList.lookup (cleanup_ephemeral_store now s) image_id = None \<longleftrightarrow> now > expires_at e"
    using assms by (simp add: lookup_cleanup)
  have c: "(\<exists>err. fst (temp_image image_id now_sweep now_check s) = Inl err) \<longleftrightarrow>
      now_sweep > expires_at e \<or> now_check > expires_at e"
  proof (cases "now_sweep > expires_at e \<or> now_check > expires_at e")
    case True
    with temp_image_miss [OF assms, of now_sweep now_check] show ?thesis by auto
  next
    case False
    with temp_image_hit [OF assms, of now_sweep now_check] show ?thesis by simp
  qed
  from a b c show ?thesis by blast
qed

theorem expiry_is_strict_witness:
  "DAList.lookup one_image ''id'' = Some \<lparr>data = ''X'', expires_at = 60\<rparr> \<and>
   DAList.lookup (cleanup_ephemeral_store 60 one_image) ''id''
     = Some \<lparr>data = ''X'', expires_at = 60\<rparr> \<and>
   fst (temp_image ''id'' 60 60 one_image) = Inr ''X'' \<and>
   (\<exists>err. fst (temp_image ''id'' 60 (60 + 1 / 1000) one_image) = Inl err)"
  using expiry_is_strict [of one_image "''id''" "\<lparr>data = ''X'', expires_at = 60\<rparr>" 60 60 60]
    expiry_is_strict [of one_image "''id''" "\<lparr>data = ''X'', expires_at = 60\<rparr>" 60 60
      "60 + 1 / 1000"]
  by (simp add: one_image_def lookup_store_image fadd_0_60)

section \<open>Failures of the generate handler\<close>




section \<open>The expiry of every entry\<close>

text \<open>
  Claim C7, amended. \<open>IMAGE_LIFETIME\<close> is 60. After any sequence of requests from the
  empty store, every entry has as \<open>expires_at\<close> the double sum of \<open>t0\<close> and
  \<open>IMAGE_LIFETIME\<close>, where \<open>t0\<close> is the clock reading of the last successful
  \<open>edit_image\<close> that stored its id; the double sum is \<open>t0 + 60\<close> whenever that is a
  double. Storing an image records exactly the double sum of \<open>now\<close> and 60 and changes
  the entry of no other id; the entry of its own id, when there is one, is replaced. An
  entry found after \<open>temp_image\<close> or after the sweep is an entry that was there before,
  unchanged.
\<close>

theorem expires_at_invariant:
  "IMAGE_LIFETIME = 60 \<and>
   (\<forall>k e. DAList.lookup (fst (run evs)) k = Some e \<longrightarrow>
      (\<exists>t0. snd (run evs) k = Some t0 \<and> expires_at e = fadd t0 IMAGE_LIFETIME)) \<and>
   DAList.lookup (store_image image_id payload now s) image_id
     = Some \<lparr>data = payload, expires_at = fadd now 60\<rparr> \<and>
   (is_double (now + 60) \<longrightarrow> fadd now 60 = now + 60) \<and>
   (fst (fst (edit_image env req image_id now s)) = 200 \<longrightarrow>
      (\<exists>e. DAList.lookup (snd (edit_image env req image_id now s)) image_id = Some e \<and>
           expires_at e = fadd now 60)) \<and>
   (\<forall>k. k \<noteq> image_id \<longrightarrow>
      DAList.lookup (snd (edit_image env req image_id now s)) k = DAList.lookup s k) \<and>
   (DAList.lookup s image_id = None \<longrightarrow>
      (\<forall>k e. DAList.lookup s k = Some e \<longrightarrow>
         DAList.lookup (snd (edit_image env req image_id now s)) k = Some e)) \<and>
   (\<forall>k e. DAList.lookup (snd (temp_image image_id now_sweep now_check s)) k = Some e \<longrightarrow>
      DAList.lookup s k = Some e) \<and>
   (\<forall>k e. DAList.lookup (cleanup_ephemeral_store now s) k = Some e \<longrightarrow>
      DAList.lookup s k = Some e)"
proof -
  have a: "\<exists>t0. snd (run evs) k = Some t0 \<and> expires_at e = fadd t0 IMAGE_LIFETIME"
    if "DAList.lookup (fst (run evs)) k = Some e" for k e
    using run_stamped [OF that] by (simp add: IMAGE_LIFETIME_def)
  have b: "DAList.lookup (store_image image_id payload now s) image_id
      = Some \<lparr>data = payload, expires_at = fadd now 60\<rparr>"
    by (simp add: lookup_store_image)
  have b': "fadd now 60 = now + 60" if "is_double (now + 60)"
    using that by (rule fadd_exact)
  have c: "\<exists>e. DAList.lookup (snd (edit_image env req image_id now s)) image_id = Some e \<and>
      expires_at e = fadd now 60"
    if "fst (fst (edit_image env req image_id now s)) = 200"
    using that edit_image_cases [of env req image_id now s]
    by (auto simp: lookup_store_image)
  have d: "DAList.lookup (snd (edit_image env req image_id now s)) k = DAList.lookup s k"
    if "k \<noteq> image_id" for k
    using that edit_image_cases [of env req image_id now s]
    by (auto simp: lookup_store_image)
  have d': "DAList.lookup (snd (edit_image env req image_id now s)) k = Some e"
    if "DAList.lookup s image_id = None" and "DAList.lookup s k = Some e" for k e
  proof -
    from that have "k \<noteq> image_id" by auto
    with that(2) show ?thesis by (simp add: d)
  qed
  have e: "DAList.lookup s k = Some e"
    if "DAList.lookup (snd (temp_image image_id now_sweep now_check s)) k = Some e" for k e
    using that by (rule temp_image_store_sub)
  have f: "DAList.lookup s k = Some e"
    if "DAList.lookup (cleanup_ephemeral_store now s) k = Some e" for k e
    using that by (rule cleanup_store_sub)
  from a b b' c d d' e f show ?thesis
    unfolding IMAGE_LIFETIME_def by blast
qed

theorem expires_at_invariant_witness:
  "DAList.lookup (fst (run sample_trace)) ''a'' = Some \<lparr>data = ''JPEG'', expires_at = 60\<rparr> \<and>
   snd (run sample_trace) ''a'' = Some 0 \<and>
   expires_at \<lparr>data = ''JPEG'', expires_at = 60\<rparr> = fadd 0 IMAGE_LIFETIME \<and>
   DAList.lookup (fst (run sample_trace)) ''b'' = None"
proof -
  note ok = edit_image_stub [of "''a''" 0 DAList.empty]
  have bad: "edit_image offline_pil sample_request ''b'' 20 s = ((400, Error ''Connection refused''), s)"
    for s
    by (simp add: edit_image_def edit_image_try_def offline_pil_def stub_pil_def
        sample_request_def sample_data_def dict_get_def call_upper_def)
  have r: "fst (run sample_trace) = cleanup_ephemeral_store 30
      (cleanup_ephemeral_store 10 (store_image ''a'' ''JPEG'' 0 DAList.empty))"
    and g: "snd (run sample_trace) = [''a'' \<mapsto> 0]"
    by (simp_all add: run_def sample_trace_def ok bad temp_image_def lookup_cleanup
        lookup_store_image fadd_0_60)
  have la: "DAList.lookup (fst (run sample_trace)) ''a'' = Some \<lparr>data = ''JPEG'', expires_at = 60\<rparr>"
    and lb: "DAList.lookup (fst (run sample_trace)) ''b'' = None"
    by (simp_all add: r lookup_cleanup lookup_store_image fadd_0_60)
  from expires_at_invariant [of sample_trace, THEN conjunct2, THEN conjunct1, rule_format, OF la]
  have "\<exists>t0. snd (run sample_trace) ''a'' = Some t0 \<and>
      expires_at \<lparr>data = ''JPEG'', expires_at = 60\<rparr> = fadd t0 IMAGE_LIFETIME" .
  with g la lb show ?thesis by simp
qed

text \<open>
  As the claim is stated it fails in two places. The recorded expiry is the rounded sum:
  at the clock reading \<^verbatim>\<open>1e17\<close> it is 64 later, not 60. And storing under an id that
  is already in the store replaces the entry: stored at 0 and again at 100, the expiry of
  the id goes from 60 to 160.
\<close>

theorem expires_at_invariant_counterexample:
  "DAList.lookup (store_image ''a'' ''X'' 100000000000000000 DAList.empty) ''a''
     = Some \<lparr>data = ''X'', expires_at = 100000000000000064\<rparr> \<and>
   (100000000000000064::real) \<noteq> 100000000000000000 + 60 \<and>
   DAList.lookup (snd (edit_image stub_pil sample_request ''a'' 0 DAList.empty)) ''a''
     = Some \<lparr>data = ''JPEG'', expires_at = 60\<rparr> \<and>
   DAList.lookup (snd (edit_image stub_pil sample_request ''a'' 100
       (snd (edit_image stub_pil sample_request ''a'' 0 DAList.empty)))) ''a''
     = Some \<lparr>data = ''JPEG'', expires_at = 160\<rparr>"
  by (simp add: edit_image_stub lookup_store_image fadd_1e17_60 fadd_0_60 fadd_100_60)

end
